theory Spec2Isabelle
  imports Main "HOL-Library.Sublist" "HOL-Library.Monad_Syntax"
begin

section \<open>Text, numbers and the regular expressions of \<open>flashing_tool.py\<close>\<close>

text \<open>
  Text is a \<^typ>\<open>string\<close>: one \<^typ>\<open>char\<close> per character of the decoded
  transcript (the character with the same code point). Every pattern of the program is
  about ASCII characters only.
\<close>

definition is_digit :: "char \<Rightarrow> bool" where
  \<comment> \<open>the class \<open>\d\<close>\<close>
  "is_digit c = (c \<in> set ''0123456789'')"

definition is_hex :: "char \<Rightarrow> bool" where
  \<comment> \<open>the class \<open>[0-9A-Fa-f]\<close>\<close>
  "is_hex c = (c \<in> set ''0123456789ABCDEFabcdef'')"

definition is_space :: "char \<Rightarrow> bool" where
  \<comment> \<open>the class \<open>\s\<close> of a \<open>str\<close> pattern, on the code points below 256\<close>
  "is_space c = (c \<in> set [CHR 0x09, CHR 0x0A, CHR 0x0B, CHR 0x0C, CHR 0x0D,
                           CHR 0x1C, CHR 0x1D, CHR 0x1E, CHR 0x1F, CHR 0x20,
                           CHR 0x85, CHR 0xA0])"

definition digit_val :: "char \<Rightarrow> int" where
  "digit_val c = int (of_char c) - 48"

definition int_of_digits :: "string \<Rightarrow> int" where
  \<comment> \<open>Python's \<open>int(s)\<close>, which the program applies to \<open>\d+\<close> groups only\<close>
  "int_of_digits s = foldl (\<lambda>a c. 10 * a + digit_val c) 0 s"

fun str_nat :: "nat \<Rightarrow> string" where
  "str_nat n = (if n < 10 then [char_of (48 + n)]
                else str_nat (n div 10) @ [char_of (48 + n mod 10)])"

declare str_nat.simps [simp del]

definition str_int :: "int \<Rightarrow> string" where
  \<comment> \<open>Python's \<open>str(i)\<close> and the \<open>{i}\<close> of an f-string\<close>
  "str_int i = (if i < 0 then CHR ''-'' # str_nat (nat (- i)) else str_nat (nat i))"

text \<open>
  A regular expression is modelled by its anchored matcher: given the text at a position,
  it returns the capture groups and the text after the match, or \<open>None\<close> when the
  expression does not match at that position. Each expression of the program is
  deterministic (a greedy class is always followed by a character outside the class or
  ends the expression), so the longest run of a class is the only candidate.
\<close>

type_synonym 'g regex = "string \<Rightarrow> ('g \<times> string) option"

text \<open>
  The groups are a list (group 1 first) for the expressions whose match object the program
  reads, and a tuple for the expression given to \<open>re.findall\<close>.
\<close>

definition lit :: "string \<Rightarrow> string \<Rightarrow> string option" where
  \<comment> \<open>a literal: the text after it\<close>
  "lit p s = (if prefix p s then Some (drop (length p) s) else None)"

definition many1 :: "(char \<Rightarrow> bool) \<Rightarrow> string \<Rightarrow> (string \<times> string) option" where
  \<comment> \<open>a greedy \<open>class+\<close>: the run and the text after it\<close>
  "many1 P s = (if takeWhile P s = [] then None else Some (takeWhile P s, dropWhile P s))"

definition one :: "(char \<Rightarrow> bool) \<Rightarrow> string \<Rightarrow> string option" where
  \<comment> \<open>one character of a class\<close>
  "one P s = (case s of [] \<Rightarrow> None | c # cs \<Rightarrow> if P c then Some cs else None)"

definition literal_re :: "string \<Rightarrow> string list regex" where
  \<comment> \<open>an expression without operators or groups, such as \<open>Rockusb>\<close>\<close>
  "literal_re p s = do { r \<leftarrow> lit p s; Some ([], r) }"

definition device_re :: "(string \<times> string \<times> string \<times> string) regex" where
  \<comment> \<open>\<open>DevNo\s*=\s*(\d+)\DVid=0x([0-9A-Fa-f]+),Pid=0x([0-9A-Fa-f]+),LocationID=(\d+)\<close>\<close>
  "device_re s = do {
     s1 \<leftarrow> lit ''DevNo'' s;
     s2 \<leftarrow> lit ''='' (dropWhile is_space s1);
     (devno, s3) \<leftarrow> many1 is_digit (dropWhile is_space s2);
     s4 \<leftarrow> one (\<lambda>c. \<not> is_digit c) s3;
     s5 \<leftarrow> lit ''Vid=0x'' s4;
     (vid, s6) \<leftarrow> many1 is_hex s5;
     s7 \<leftarrow> lit '',Pid=0x'' s6;
     (pid, s8) \<leftarrow> many1 is_hex s7;
     s9 \<leftarrow> lit '',LocationID='' s8;
     (loc, s10) \<leftarrow> many1 is_digit s9;
     Some ((devno, vid, pid, loc), s10)
   }"

definition found_re :: "string list regex" where
  \<comment> \<open>\<open>Found (\d+) rockusb,Select input DevNo,Rescan press <R>,Quit press <Q>:\<close>\<close>
  "found_re s = do {
     s1 \<leftarrow> lit ''Found '' s;
     (n, s2) \<leftarrow> many1 is_digit s1;
     s3 \<leftarrow> lit '' rockusb,Select input DevNo,Rescan press <R>,Quit press <Q>:'' s2;
     Some ([n], s3)
   }"

definition progress_re :: "string list regex" where
  \<comment> \<open>\<open>Write LBA from file \(\d+%\)\<close>\<close>
  "progress_re s = do {
     s1 \<leftarrow> lit ''Write LBA from file ('' s;
     (n, s2) \<leftarrow> many1 is_digit s1;
     s3 \<leftarrow> lit ''%)'' s2;
     Some ([], s3)
   }"

definition percent_re :: "string list regex" where
  \<comment> \<open>\<open>\((\d+)%\)\<close>\<close>
  "percent_re s = do {
     s1 \<leftarrow> lit ''('' s;
     (n, s2) \<leftarrow> many1 is_digit s1;
     s3 \<leftarrow> lit ''%)'' s2;
     Some ([n], s3)
   }"

text \<open>
  \<open>re.search\<close>: the leftmost position where the expression matches. The result is the
  text before the match, the matched text, the groups and the text after the match.
\<close>

definition matched :: "string \<Rightarrow> string \<Rightarrow> string" where
  "matched s rest = take (length s - length rest) s"

fun re_search :: "'g regex \<Rightarrow> string \<Rightarrow> (string \<times> string \<times> 'g \<times> string) option" where
  "re_search r [] =
     (case r [] of Some (g, rest) \<Rightarrow> Some ([], matched [] rest, g, rest) | None \<Rightarrow> None)"
| "re_search r (c # cs) =
     (case r (c # cs) of
        Some (g, rest) \<Rightarrow> Some ([], matched (c # cs) rest, g, rest)
      | None \<Rightarrow>
          (case re_search r cs of
             Some (pre, m, g, rest) \<Rightarrow> Some (c # pre, m, g, rest)
           | None \<Rightarrow> None))"

text \<open>
  \<open>re.findall\<close>: the groups of the successive non-overlapping matches, left to right.
  After a match the scan goes on behind it (one character further when the match is
  empty).
\<close>

function findall :: "'g regex \<Rightarrow> string \<Rightarrow> 'g list" where
  "findall r [] = (case r [] of Some (g, rest) \<Rightarrow> [g] | None \<Rightarrow> [])"
| "findall r (c # cs) =
     (case r (c # cs) of
        Some (g, rest) \<Rightarrow> g # findall r (if length rest \<le> length cs then rest else cs)
      | None \<Rightarrow> findall r cs)"
  by pat_completeness auto
termination
  by (relation "measure (\<lambda>(r, s). length s)") auto

section \<open>Devices and the device parser\<close>

record RadxaDevice =
  devno :: int
  vid :: string
  pid :: string
  location_id :: int

definition parse_devices :: "string \<Rightarrow> RadxaDevice list" where
  \<comment> \<open>lines 97 to 102 of \<open>initial_prompt\<close>\<close>
  "parse_devices output =
     map (\<lambda>(d, v, p, l). \<lparr>devno = int_of_digits d, vid = v, pid = p,
                           location_id = int_of_digits l\<rparr>)
       (findall device_re output)"

section \<open>The spawned process and \<open>pexpect\<close>\<close>

text \<open>
  The external process is given by what the reader receives from it, in order: a chunk of
  text, or a silence that outlasts the deadline of a bounded wait. When the list is
  exhausted the process has closed its output, and every later read is at end of stream.
\<close>

datatype event = Output string | Silence

datatype pattern = Regex "string list regex" | EOF | TIMEOUT

datatype exn = ExnEOF | ExnTIMEOUT | AttributeError | IndexError

datatype 'a result = Return 'a | Raise exn | OutOfFuel

record child =
  feed :: "event list"
  buffer :: string
  before :: string
  match :: "(string \<times> string list) option"
  sent :: "string list"

text \<open>
  The search of one buffer: the first match of every expression, the earliest start wins
  and, on a tie, the expression listed first.
\<close>

fun search_patterns ::
  "pattern list \<Rightarrow> nat \<Rightarrow> string \<Rightarrow> (nat \<times> string \<times> string \<times> string list \<times> string) option" where
  "search_patterns [] i buf = None"
| "search_patterns (Regex r # ps) i buf =
     (case re_search r buf of
        None \<Rightarrow> search_patterns ps (Suc i) buf
      | Some (pre, m, g, rest) \<Rightarrow>
          (case search_patterns ps (Suc i) buf of
             None \<Rightarrow> Some (i, pre, m, g, rest)
           | Some (j, pre', m', g', rest') \<Rightarrow>
               if length pre' < length pre then Some (j, pre', m', g', rest')
               else Some (i, pre, m, g, rest)))"
| "search_patterns (EOF # ps) i buf = search_patterns ps (Suc i) buf"
| "search_patterns (TIMEOUT # ps) i buf = search_patterns ps (Suc i) buf"

fun eof_index :: "pattern list \<Rightarrow> nat \<Rightarrow> nat option" where
  "eof_index [] i = None"
| "eof_index (EOF # ps) i = Some i"
| "eof_index (p # ps) i = eof_index ps (Suc i)"

fun timeout_index :: "pattern list \<Rightarrow> nat \<Rightarrow> nat option" where
  "timeout_index [] i = None"
| "timeout_index (TIMEOUT # ps) i = Some i"
| "timeout_index (p # ps) i = timeout_index ps (Suc i)"

datatype arrival = Hit nat string string "string list" string | Closed | Expired

text \<open>
  The read loop of \<open>expect\<close>: search what is buffered, else read on. It returns what
  ended the wait, the buffer at that moment and what the process has still to write.
\<close>

fun await :: "pattern list \<Rightarrow> bool \<Rightarrow> string \<Rightarrow> event list \<Rightarrow> arrival \<times> string \<times> event list" where
  "await ps bounded buf [] =
     (case search_patterns ps 0 buf of
        Some (i, pre, m, g, rest) \<Rightarrow> (Hit i pre m g rest, buf, [])
      | None \<Rightarrow> (Closed, buf, []))"
| "await ps bounded buf (e # fd) =
     (case search_patterns ps 0 buf of
        Some (i, pre, m, g, rest) \<Rightarrow> (Hit i pre m g rest, buf, e # fd)
      | None \<Rightarrow>
          (case e of
             Output s \<Rightarrow> await ps bounded (buf @ s) fd
           | Silence \<Rightarrow> if bounded then (Expired, buf, fd) else await ps bounded buf fd))"

definition child_expect :: "pattern list \<Rightarrow> nat option \<Rightarrow> child \<Rightarrow> nat result \<times> child" where
  \<comment> \<open>\<open>child.expect(ps, timeout)\<close>; the timeout \<open>None\<close> waits without a deadline\<close>
  "child_expect ps timeout ch =
     (case await ps (timeout \<noteq> None) (buffer ch) (feed ch) of
        (Hit i pre m g rest, buf, fd) \<Rightarrow>
          (Return i, ch\<lparr>feed := fd, buffer := rest, before := pre, match := Some (m, g)\<rparr>)
      | (Closed, buf, fd) \<Rightarrow>
          ((case eof_index ps 0 of Some i \<Rightarrow> Return i | None \<Rightarrow> Raise ExnEOF),
           ch\<lparr>feed := fd, buffer := [], before := buf, match := None\<rparr>)
      | (Expired, buf, fd) \<Rightarrow>
          ((case timeout_index ps 0 of Some i \<Rightarrow> Return i | None \<Rightarrow> Raise ExnTIMEOUT),
           ch\<lparr>feed := fd, buffer := buf, before := buf, match := None\<rparr>))"

definition child_sendline :: "string \<Rightarrow> child \<Rightarrow> child" where
  \<comment> \<open>\<open>child.sendline(line)\<close>: the line and the line separator\<close>
  "child_sendline line ch = ch\<lparr>sent := sent ch @ [line @ ''\<newline>'']\<rparr>"

definition spawn_child :: "event list \<Rightarrow> child" where
  "spawn_child process =
     \<lparr>feed = process, buffer = [], before = [], match = None, sent = []\<rparr>"

section \<open>The tool object and its effects\<close>

datatype level = INFO | ERROR

text \<open>
  What the program shows, in order: a logging record, a progress line written to standard
  output (\<open>render\<close> gives its text), or a printed line.
\<close>

datatype report = Log level string | Progress int | Print string

definition progress_bar :: "int \<Rightarrow> string" where
  "progress_bar p =
     ''['' @ replicate (nat (p div 2)) CHR ''='' @ replicate (nat ((100 - p) div 2)) CHR '' '' @ '']''"

definition render :: "report \<Rightarrow> string" where
  "render x =
     (case x of
        Log INFO m \<Rightarrow> [CHR 0x1B] @ ''[0m[INFO] '' @ m @ [CHR 0x1B] @ ''[0m''
      | Log ERROR m \<Rightarrow> [CHR 0x1B] @ ''[91m[ERROR] '' @ m @ [CHR 0x1B] @ ''[0m''
      | Progress p \<Rightarrow>
          [CHR 0x0D, CHR 0x1B] @ ''[92mProgress: ''
            @ replicate (3 - length (str_int p)) CHR '' '' @ str_int p @ ''% ''
            @ progress_bar p @ [CHR 0x1B] @ ''[0m''
      | Print m \<Rightarrow> m @ ''\<newline>'')"

record UpgradeTool =
  ul_file :: string
  im_file :: string
  command :: string
  child :: "child option"
  num_devices :: int
  devices :: "RadxaDevice list"
  out :: "report list"

type_synonym 'a prog = "UpgradeTool \<Rightarrow> 'a result \<times> UpgradeTool"

definition return :: "'a \<Rightarrow> 'a prog" where
  "return a s = (Return a, s)"

definition bind :: "'a prog \<Rightarrow> ('a \<Rightarrow> 'b prog) \<Rightarrow> 'b prog" where
  "bind m f s =
     (case m s of
        (Return a, s') \<Rightarrow> f a s'
      | (Raise e, s') \<Rightarrow> (Raise e, s')
      | (OutOfFuel, s') \<Rightarrow> (OutOfFuel, s'))"

definition seq :: "'a prog \<Rightarrow> 'b prog \<Rightarrow> 'b prog" where
  "seq m n = bind m (\<lambda>_. n)"

definition try_except :: "exn \<Rightarrow> 'a prog \<Rightarrow> 'a prog \<Rightarrow> 'a prog" where
  \<comment> \<open>\<open>try: body except e: handler\<close>\<close>
  "try_except e body handler s =
     (case body s of
        (Raise e', s') \<Rightarrow> if e' = e then handler s' else (Raise e', s')
      | (r, s') \<Rightarrow> (r, s'))"

fun for_each :: "'a list \<Rightarrow> ('a \<Rightarrow> unit prog) \<Rightarrow> unit prog" where
  "for_each [] body = return ()"
| "for_each (x # xs) body = seq (body x) (for_each xs body)"

definition emit :: "report \<Rightarrow> unit prog" where
  "emit x s = (Return (), s\<lparr>out := out s @ [x]\<rparr>)"

definition logging_info :: "string \<Rightarrow> unit prog" where
  "logging_info m = emit (Log INFO m)"

definition logging_error :: "string \<Rightarrow> unit prog" where
  "logging_error m = emit (Log ERROR m)"

definition expect :: "pattern list \<Rightarrow> nat option \<Rightarrow> nat prog" where
  \<comment> \<open>\<open>self.child.expect(...)\<close>\<close>
  "expect ps timeout s =
     (case child s of
        None \<Rightarrow> (Raise AttributeError, s)
      | Some ch \<Rightarrow> (case child_expect ps timeout ch of (r, ch') \<Rightarrow> (r, s\<lparr>child := Some ch'\<rparr>)))"

definition sendline :: "string \<Rightarrow> unit prog" where
  \<comment> \<open>\<open>self.child.sendline(...)\<close>\<close>
  "sendline line s =
     (case child s of
        None \<Rightarrow> (Raise AttributeError, s)
      | Some ch \<Rightarrow> (Return (), s\<lparr>child := Some (child_sendline line ch)\<rparr>))"

definition child_before :: "string prog" where
  \<comment> \<open>\<open>self.child.before.decode("utf-8")\<close>\<close>
  "child_before s =
     (case child s of None \<Rightarrow> (Raise AttributeError, s) | Some ch \<Rightarrow> (Return (before ch), s))"

definition group :: "nat \<Rightarrow> (string \<times> string list) option \<Rightarrow> string result" where
  \<comment> \<open>\<open>m.group(i)\<close> of the result \<open>m\<close> of a search\<close>
  "group i m =
     (case m of
        None \<Rightarrow> Raise AttributeError
      | Some (whole, gs) \<Rightarrow>
          if i = 0 then Return whole
          else if i \<le> length gs then Return (gs ! (i - 1))
          else Raise IndexError)"

definition child_match_group :: "nat \<Rightarrow> string prog" where
  \<comment> \<open>\<open>self.child.match.group(i)\<close>\<close>
  "child_match_group i s =
     (case child s of None \<Rightarrow> (Raise AttributeError, s) | Some ch \<Rightarrow> (group i (match ch), s))"

definition search_group :: "string list regex \<Rightarrow> string \<Rightarrow> nat \<Rightarrow> string prog" where
  \<comment> \<open>\<open>re.search(r, text).group(i)\<close>\<close>
  "search_group r text i s =
     (group i (case re_search r text of None \<Rightarrow> None | Some (pre, m, g, rest) \<Rightarrow> Some (m, g)), s)"

section \<open>The controller: the methods of \<open>UpgradeTool\<close>\<close>

definition maskrom_hint :: string where
  "maskrom_hint = ''If the device is connected try to set it in Maskrom mode https://wiki.radxa.com/Rock3/installusb-install-radxa-cm3-io.''"

definition init :: "(string \<Rightarrow> bool) \<Rightarrow> string \<Rightarrow> string \<Rightarrow> string \<Rightarrow> (report list \<times> int) + UpgradeTool" where
  \<comment> \<open>\<open>__init__\<close>; \<open>Inl\<close> is \<open>exit(1)\<close> with what was printed before it\<close>
  "init path_exists ul im cmd =
     (if path_exists ul then
        (if path_exists im then
           Inr \<lparr>ul_file = ul, im_file = im, command = cmd, child = None,
                num_devices = 0, devices = [], out = []\<rparr>
         else Inl ([Print ''Image file path does not exist.''], 1))
      else Inl ([Print ''Upgrade loader file path does not exist.''], 1))"

definition spawn :: "event list \<Rightarrow> unit prog" where
  \<comment> \<open>\<open>self.child = pexpect.spawn(self.command, timeout=None, echo=True)\<close>\<close>
  "spawn process s = (Return (), s\<lparr>child := Some (spawn_child process)\<rparr>)"

definition expect_initial_prompt :: "unit prog" where
  "expect_initial_prompt =
     seq (expect [Regex (literal_re ''Rescan press <R>,Quit press <Q>:''), EOF] None) (return ())"

definition rescan_devices :: "unit prog" where
  "rescan_devices = sendline ''r''"

definition initial_prompt :: "unit prog" where
  "initial_prompt =
     seq expect_initial_prompt
    (bind child_before (\<lambda>output.
       if sublist ''No found rockusb'' output then logging_info ''No Rescan prompt found.''
       else if sublist ''Select input DevNo'' output then
         seq rescan_devices
        (seq (expect [Regex found_re] None)
        (bind (child_match_group 1) (\<lambda>n.
         seq (\<lambda>s. (Return (), s\<lparr>num_devices := int_of_digits n\<rparr>))
             (\<lambda>s. (Return (), s\<lparr>devices := parse_devices output\<rparr>)))))
       else return ()))"

definition upgrade_loader :: "int \<Rightarrow> unit prog" where
  "upgrade_loader location =
     try_except ExnTIMEOUT
       (seq (expect [Regex (literal_re ''Rockusb>''), TIMEOUT] (Some 500))
       (bind child_before (\<lambda>output.
          if sublist ''Upgrade loader ok'' output then
            logging_info (''Upgrade loader for device in location '' @ str_int location
                          @ '' was successful.'')
          else if sublist ''Download Boot Fail'' output then
            seq (logging_error (''Upgrade loader command for device in location ''
                                @ str_int location @ '' failed.''))
                (logging_info maskrom_hint)
          else logging_error (''Unknow error for device in location '' @ str_int location @ ''.''))))
       (logging_error ''Upgrade loader command timed out.'')"

text \<open>
  The loop of \<open>writing_lba\<close>. It leaves by \<open>break\<close> only, so the \<open>else\<close> of the
  \<open>while\<close> never runs; an end of stream (index 1) starts the next iteration. The fuel
  counts the iterations: a loop that has not left after that many is \<open>OutOfFuel\<close>.
\<close>

fun writing_loop :: "nat \<Rightarrow> int \<Rightarrow> unit prog" where
  "writing_loop 0 last_percentage = (\<lambda>s. (OutOfFuel, s))"
| "writing_loop (Suc fuel) last_percentage =
     bind (expect [Regex progress_re, EOF] None) (\<lambda>index.
       if index = 0 then
         bind (child_match_group 0) (\<lambda>progress_message.
         bind (search_group percent_re progress_message 1) (\<lambda>g.
           let progress_percentage = int_of_digits g in
           seq (if progress_percentage \<noteq> last_percentage
                then emit (Progress progress_percentage) else return ())
               (if progress_percentage = 100
                then seq (emit (Print [])) (logging_info ''Write process completed.'')
                else writing_loop fuel
                       (if progress_percentage \<noteq> last_percentage
                        then progress_percentage else last_percentage))))
       else writing_loop fuel last_percentage)"

definition writing_lba :: "nat \<Rightarrow> unit prog" where
  "writing_lba fuel =
     seq (writing_loop fuel (- 1)) (seq (sendline ''cd'') expect_initial_prompt)"

definition write_lba :: "nat \<Rightarrow> int \<Rightarrow> unit prog" where
  "write_lba fuel location =
     try_except ExnTIMEOUT
       (seq (expect [Regex (literal_re ''Rockusb>''), TIMEOUT] (Some 20))
       (bind child_before (\<lambda>output.
          if sublist ''Write LBA failed!'' output then
            seq (logging_error (''Write LBA for device in location '' @ str_int location
                                @ '' failed''))
                (logging_info maskrom_hint)
          else
            seq (logging_info (''Writing LBA for device in location '' @ str_int location @ ''.''))
                (writing_lba fuel))))
       (logging_error ''Upgrade loader command timed out.'')"

definition send_upgrade_commands :: "nat \<Rightarrow> int \<Rightarrow> unit prog" where
  "send_upgrade_commands fuel device_location s =
     for_each [''ul '' @ ul_file s @ '' -noreset'', ''wl 0 '' @ im_file s]
       (\<lambda>command.
          seq (sendline command)
         (seq (if prefix ''ul'' command then upgrade_loader device_location else return ())
              (if prefix ''wl'' command then write_lba fuel device_location else return ())))
       s"

definition run_upgrade :: "nat \<Rightarrow> RadxaDevice \<Rightarrow> unit prog" where
  "run_upgrade fuel device =
     seq (sendline (str_int (devno device)))
    (seq (expect [Regex (literal_re ''Rockusb>'')] None)
         (send_upgrade_commands fuel (location_id device)))"

definition run :: "event list \<Rightarrow> nat \<Rightarrow> unit prog" where
  "run process fuel =
     seq (spawn process)
       (try_except ExnEOF
         (seq initial_prompt
           (\<lambda>s. if devices s = [] then
                   seq (logging_info ''No Radxa devices found.'') (logging_info maskrom_hint) s
                 else for_each (devices s) (run_upgrade fuel) s))
         (logging_error ''An error occurred during the upgrade process.''))"

definition default_ul_file :: string where
  "default_ul_file = ''./RTE_Files/rk356x_spl_loader_ddr1056_v1.10.111.bin''"

definition default_im_file :: string where
  "default_im_file = ''./RTE_Files/lade-image-radxa-radxa-cm3-io-rk3566-20230505103716.gptimg''"

text \<open>
  \<open>main\<close>, from the parsed arguments on: the exit status of the program (\<open>None\<close> while
  it has not ended), what it has shown, and the process it has spawned, if any. An
  exception that leaves \<open>run\<close> ends the program with status 1.
\<close>

definition main ::
  "(string \<Rightarrow> bool) \<Rightarrow> string option \<Rightarrow> string option \<Rightarrow> event list \<Rightarrow> nat
     \<Rightarrow> int option \<times> report list \<times> child option" where
  "main path_exists ul_arg im_arg process fuel =
     (case init path_exists (case ul_arg of None \<Rightarrow> default_ul_file | Some f \<Rightarrow> f)
             (case im_arg of None \<Rightarrow> default_im_file | Some f \<Rightarrow> f) ''sudo ./upgrade_tool'' of
        Inl (shown, status) \<Rightarrow> (Some status, shown, None)
      | Inr upgrade_tool \<Rightarrow>
          (case run process fuel upgrade_tool of
             (Return u, s) \<Rightarrow> (Some 0, out s, child s)
           | (Raise e, s) \<Rightarrow> (Some 1, out s, child s)
           | (OutOfFuel, s) \<Rightarrow> (None, out s, child s)))"

section \<open>Notions used to state the properties\<close>

text \<open>All the text a process writes before it closes its output.\<close>

fun transcript :: "event list \<Rightarrow> string" where
  "transcript [] = []"
| "transcript (Output t # es) = t @ transcript es"
| "transcript (Silence # es) = transcript es"

text \<open>The percentages of the progress lines among what was shown.\<close>

fun percentages :: "report list \<Rightarrow> int list" where
  "percentages [] = []"
| "percentages (Progress p # xs) = p # percentages xs"
| "percentages (x # xs) = percentages xs"

text \<open>The lines written to the process so far (none before it is spawned).\<close>

definition sent_lines :: "UpgradeTool \<Rightarrow> string list" where
  "sent_lines s = (case child s of None \<Rightarrow> [] | Some ch \<Rightarrow> sent ch)"

text \<open>
  The progress parser: the percentage that one iteration of the loop of \<open>writing_lba\<close>
  reads from the text \<open>line\<close> (lines 175, 178 and 179), or \<open>None\<close> when the expression
  of line 175 does not match it and the iteration shows nothing.
\<close>

definition parse_progress :: "string \<Rightarrow> int option" where
  "parse_progress line =
     (case re_search progress_re line of
        None \<Rightarrow> None
      | Some (pre, progress_message, g, rest) \<Rightarrow>
          (case re_search percent_re progress_message of
             Some (pre', m', n # gs, rest') \<Rightarrow> Some (int_of_digits n)
           | _ \<Rightarrow> None))"

text \<open>
  The commands of the external tool, each with its line terminator, for a loader path, an
  image path and the devices found.
\<close>

definition vocabulary :: "string \<Rightarrow> string \<Rightarrow> RadxaDevice list \<Rightarrow> string set" where
  "vocabulary ul im ds =
     {''r\<newline>'', ''ul '' @ ul @ '' -noreset\<newline>'', ''wl 0 '' @ im @ ''\<newline>'', ''cd\<newline>''}
     \<union> (\<lambda>d. str_int (devno d) @ ''\<newline>'') ` set ds"

text \<open>
  An enumeration text as a list of lines: a descriptor line with its four fields, or any
  other line. A descriptor line is well formed when its numbers are digits and its
  identifiers hexadecimal digits; another line is well formed when the text \<open>DevNo\<close>
  does not occur in it.
\<close>

datatype line = Descriptor string string string string | Noise string





text \<open>
  Hoare triples for the controller: from a state that satisfies \<open>P\<close>, a normal return
  satisfies \<open>Q\<close>, the only exception raised is the end of stream, and the state then, or
  when the fuel runs out, satisfies \<open>E\<close>.
\<close>

definition triple ::
  "(UpgradeTool \<Rightarrow> bool) \<Rightarrow> 'a prog \<Rightarrow> ('a \<Rightarrow> UpgradeTool \<Rightarrow> bool) \<Rightarrow> (UpgradeTool \<Rightarrow> bool) \<Rightarrow> bool" where
  "triple P m Q E =
     (\<forall>s. P s \<longrightarrow>
        (case m s of
           (Return a, s') \<Rightarrow> Q a s'
         | (Raise e, s') \<Rightarrow> e = ExnEOF \<and> E s'
         | (OutOfFuel, s') \<Rightarrow> E s'))"

definition kept :: "(string \<Rightarrow> string \<Rightarrow> RadxaDevice list \<Rightarrow> string set \<Rightarrow> bool) \<Rightarrow> UpgradeTool \<Rightarrow> bool" where
  "kept G s = (child s \<noteq> None \<and> G (ul_file s) (im_file s) (devices s) (set (sent_lines s)))"

text \<open>
  The invariants of a session: a process is attached, the paths are the given ones and the
  lines sent so far are within a vocabulary (only the rescan command while scanning).
\<close>

definition scanning :: "string \<Rightarrow> string \<Rightarrow> UpgradeTool \<Rightarrow> bool" where
  "scanning U M = kept (\<lambda>u m d S. u = U \<and> m = M \<and> S \<subseteq> {''r\<newline>''})"

definition flashing :: "string \<Rightarrow> string \<Rightarrow> RadxaDevice list \<Rightarrow> UpgradeTool \<Rightarrow> bool" where
  "flashing U M D = kept (\<lambda>u m d S. u = U \<and> m = M \<and> d = D \<and> S \<subseteq> vocabulary U M D)"

section \<open>Example sessions\<close>

definition example_tool :: UpgradeTool where
  "example_tool =
     \<lparr>ul_file = ''l.bin'', im_file = ''i.img'', command = ''sudo ./upgrade_tool'',
      child = None, num_devices = 0, devices = [], out = []\<rparr>"

definition enumeration :: string where
  "enumeration = ''DevNo=1 Vid=0x2207,Pid=0x350a,LocationID=101 Maskrom\<newline>Found 1 rockusb,Select input DevNo,Rescan press <R>,Quit press <Q>:''"

text \<open>One device, flashed to the end; the stream repeats the 40% line.\<close>

definition completes :: "event list" where
  "completes =
     [Output enumeration, Output enumeration, Output ''Rockusb>'',
      Output ''Upgrade loader ok.\<newline>Rockusb>'', Silence,
      Output ''Write LBA from file (40%)'', Output ''Write LBA from file (40%)'',
      Output ''Write LBA from file (100%)'', Output ''Rockusb>'',
      Output ''Rescan press <R>,Quit press <Q>:'']"

text \<open>
  The loader upload fails: with the failure marker, with an unknown reply, and with no
  reply before the deadline. The write that follows is rejected.
\<close>

definition loader_fails :: "event list" where
  "loader_fails =
     [Output enumeration, Output enumeration, Output ''Rockusb>'',
      Output ''Download Boot Fail\<newline>Rockusb>'', Output ''Write LBA failed!\<newline>Rockusb>'']"

definition loader_unknown :: "event list" where
  "loader_unknown =
     [Output enumeration, Output enumeration, Output ''Rockusb>'',
      Output ''Creating Comm Object failed!\<newline>Rockusb>'',
      Output ''Write LBA failed!\<newline>Rockusb>'']"

definition loader_silent :: "event list" where
  "loader_silent =
     [Output enumeration, Output enumeration, Output ''Rockusb>'',
      Silence, Output ''Write LBA failed!\<newline>Rockusb>'']"

text \<open>The process closes its output after a 40% progress line.\<close>

definition dies_mid_write :: "event list" where
  "dies_mid_write =
     [Output enumeration, Output enumeration, Output ''Rockusb>'',
      Output ''Upgrade loader ok.\<newline>Rockusb>'', Silence,
      Output ''Write LBA from file (40%)'']"




section \<open>Evaluation\<close>

lemmas controller_defs =
  run_def spawn_def spawn_child_def initial_prompt_def expect_initial_prompt_def
  rescan_devices_def upgrade_loader_def writing_lba_def write_lba_def
  send_upgrade_commands_def run_upgrade_def seq_def return_def emit_def logging_info_def
  logging_error_def bind_def try_except_def expect_def sendline_def child_before_def
  group_def child_match_group_def search_group_def child_expect_def child_sendline_def

lemmas text_defs =
  literal_re_def found_re_def progress_re_def percent_re_def device_re_def lit_def
  many1_def one_def is_digit_def is_hex_def is_space_def matched_def parse_devices_def
  int_of_digits_def digit_val_def sublist_code

lemma str_int_1: "str_int 1 = ''1''"
  by code_simp

lemma str_int_101: "str_int 101 = ''101''"
  by code_simp

text \<open>Reading a number written in decimal gives the number back.\<close>

lemma int_of_digits_snoc: "int_of_digits (xs @ [c]) = 10 * int_of_digits xs + digit_val c"
  by (simp add: int_of_digits_def)

lemma digit_val_char_of: "d < 10 \<Longrightarrow> digit_val (char_of (48 + d)) = int d"
  by (simp add: digit_val_def)

lemma int_of_digits_str_nat: "int_of_digits (str_nat n) = int n"
proof (induction n rule: str_nat.induct)
  case (1 n)
  show ?case
  proof (cases "n < 10")
    case True
    then show ?thesis
      by (subst str_nat.simps) (simp add: int_of_digits_def digit_val_char_of)
  next
    case False
    with 1 have ih: "int_of_digits (str_nat (n div 10)) = int (n div 10)" by simp
    have "n mod 10 < 10" by simp
    from digit_val_char_of [OF this]
    have dv: "digit_val (char_of (48 + n mod 10)) = int (n mod 10)" .
    have "int n = 10 * int (n div 10) + int (n mod 10)" by presburger
    with ih dv False show ?thesis
      by (subst str_nat.simps) (simp add: int_of_digits_snoc)
  qed
qed

lemma digit_chars: "\<forall>d \<in> set [0 ..< 10]. is_digit (char_of (48 + d))"
  by code_simp

lemma str_nat_digits: "list_all is_digit (str_nat n) \<and> str_nat n \<noteq> []"
proof (induction n rule: str_nat.induct)
  case (1 n)
  have d: "is_digit (char_of (48 + d))" if "d < 10" for d :: nat
    using digit_chars that by simp
  show ?case
  proof (cases "n < 10")
    case True
    with d [of n] show ?thesis by (subst (1 2) str_nat.simps) simp
  next
    case False
    with 1 d [of "n mod 10"] show ?thesis by (subst (1 2) str_nat.simps) simp
  qed
qed

section \<open>Construction\<close>

text \<open>
  C10. Constructing the tool with a loader path or an image path that does not exist ends
  the program with exit status 1 after a printed message, and no process is spawned; when
  both paths exist the constructed tool stores them unchanged and has no process.
\<close>

theorem init_checks_paths:
  "(\<not> (path_exists ul \<and> path_exists im) \<longrightarrow>
      (\<exists>msg. init path_exists ul im cmd = Inl ([Print msg], 1)
          \<and> main path_exists (Some ul) (Some im) process fuel = (Some 1, [Print msg], None)))
   \<and> (path_exists ul \<and> path_exists im \<longrightarrow>
      (\<exists>t. init path_exists ul im cmd = Inr t \<and> ul_file t = ul \<and> im_file t = im
          \<and> child t = None))"
  by (simp add: init_def main_def)

theorem init_checks_paths_witness:
  "main (\<lambda>p. p = ''l.bin'') (Some ''l.bin'') (Some ''i.img'') [Output ''x''] 3
     = (Some 1, [Print ''Image file path does not exist.''], None)
   \<and> (\<exists>t. init (\<lambda>p. True) ''l.bin'' ''i.img'' ''sudo ./upgrade_tool'' = Inr t
          \<and> ul_file t = ''l.bin'' \<and> im_file t = ''i.img'' \<and> child t = None)"
  using init_checks_paths [of "\<lambda>p. p = ''l.bin''" "''l.bin''" "''i.img''"
      "''sudo ./upgrade_tool''" "[Output ''x'']" 3]
    init_checks_paths [of "\<lambda>p. True" "''l.bin''" "''i.img''" "''sudo ./upgrade_tool''"]
  by (simp add: init_def)

section \<open>Searching and waiting\<close>

lemma re_search_SomeD:
  "re_search r s = Some (pre, m, g, rest) \<Longrightarrow>
   \<exists>t. s = pre @ t \<and> r t = Some (g, rest) \<and> m = matched t rest"
proof (induction s arbitrary: pre)
  case Nil
  then show ?case by (auto split: option.splits)
next
  case (Cons c cs)
  show ?case
  proof (cases "r (c # cs)")
    case (Some a)
    with Cons.prems show ?thesis by (cases a) auto
  next
    case None
    with Cons.prems obtain pre' where p: "re_search r cs = Some (pre', m, g, rest)" "pre = c # pre'"
      by (auto split: option.splits)
    from Cons.IH [OF p(1)] p(2) show ?thesis by auto
  qed
qed

lemma re_search_literal_None: "re_search (literal_re p) s = None \<longleftrightarrow> \<not> sublist p s"
proof (induction s)
  case Nil
  then show ?case by (auto simp: literal_re_def lit_def)
next
  case (Cons c cs)
  then show ?case
    by (auto simp: literal_re_def lit_def sublist_Cons_right split: option.splits)
qed

lemma sublist_append_left_mono: "sublist p a \<Longrightarrow> sublist p (a @ b)"
  by (auto simp: sublist_def) (metis append.assoc)

lemma search_literal_eof_None:
  "\<not> sublist p buf \<Longrightarrow> search_patterns [Regex (literal_re p), EOF] 0 buf = None"
  using re_search_literal_None [of p buf] by simp

lemma await_literal_closed:
  "\<not> sublist p (buf @ transcript fd) \<Longrightarrow>
   await [Regex (literal_re p), EOF] False buf fd = (Closed, buf @ transcript fd, [])"
proof (induction fd arbitrary: buf)
  case Nil
  then show ?case by (simp add: search_literal_eof_None del: search_patterns.simps)
next
  case (Cons e fd)
  have nb: "\<not> sublist p buf"
    using Cons.prems sublist_append_left_mono by blast
  show ?case
  proof (cases e)
    case (Output t)
    with Cons.prems have "\<not> sublist p ((buf @ t) @ transcript fd)" by simp
    from Cons.IH [OF this] nb Output show ?thesis
      by (simp add: search_literal_eof_None del: search_patterns.simps)
  next
    case Silence
    with Cons.prems have "\<not> sublist p (buf @ transcript fd)" by simp
    from Cons.IH [OF this] nb Silence show ?thesis
      by (simp add: search_literal_eof_None del: search_patterns.simps)
  qed
qed


lemma await_Hit:
  "await ps b buf fd = (Hit i pre m g rest, buf', fd') \<Longrightarrow>
   search_patterns ps 0 buf' = Some (i, pre, m, g, rest)"
proof (induction fd arbitrary: buf)
  case Nil
  then show ?case by (auto split: option.splits)
next
  case (Cons e fd)
  show ?case
  proof (cases "search_patterns ps 0 buf")
    case None
    with Cons.prems Cons.IH show ?thesis
      by (cases e) (auto split: if_splits)
  next
    case (Some a)
    with Cons.prems show ?thesis by (auto split: prod.splits)
  qed
qed

lemma await_Expired: "await ps b buf fd = (Expired, buf', fd') \<Longrightarrow> b"
proof (induction fd arbitrary: buf)
  case Nil
  then show ?case by (auto split: option.splits)
next
  case (Cons e fd)
  show ?case
  proof (cases "search_patterns ps 0 buf")
    case None
    with Cons.prems Cons.IH show ?thesis
      by (cases e) (auto split: if_splits)
  next
    case (Some a)
    with Cons.prems show ?thesis by (auto split: prod.splits)
  qed
qed

lemma child_expect_cases:
  assumes "child_expect ps t ch = (r, ch')"
  shows "sent ch' = sent ch \<and>
   ((\<exists>i pre m g rest buf. r = Return i \<and> search_patterns ps 0 buf = Some (i, pre, m, g, rest)
        \<and> match ch' = Some (m, g) \<and> before ch' = pre)
    \<or> (r = (case eof_index ps 0 of Some i \<Rightarrow> Return i | None \<Rightarrow> Raise ExnEOF)
        \<and> match ch' = None)
    \<or> (t \<noteq> None \<and> r = (case timeout_index ps 0 of Some i \<Rightarrow> Return i | None \<Rightarrow> Raise ExnTIMEOUT)
        \<and> match ch' = None))"
proof -
  obtain a buf fd where aw: "await ps (t \<noteq> None) (buffer ch) (feed ch) = (a, buf, fd)"
    by (cases "await ps (t \<noteq> None) (buffer ch) (feed ch)") auto
  show ?thesis
  proof (cases a)
    case (Hit i pre m g rest)
    with aw await_Hit [of ps "t \<noteq> None" "buffer ch" "feed ch" i pre m g rest buf fd]
    have "search_patterns ps 0 buf = Some (i, pre, m, g, rest)" by simp
    with assms aw Hit show ?thesis by (auto simp: child_expect_def)
  next
    case Closed
    with assms aw show ?thesis by (auto simp: child_expect_def)
  next
    case Expired
    with aw await_Expired [of ps "t \<noteq> None" "buffer ch" "feed ch" buf fd]
    have "t \<noteq> None" by simp
    with assms aw Expired show ?thesis by (auto simp: child_expect_def)
  qed
qed

lemma expect_cases:
  assumes "expect ps t s = (r, s')" and "child s = Some ch"
  shows "\<exists>ch'. s' = s\<lparr>child := Some ch'\<rparr> \<and> child_expect ps t ch = (r, ch')"
  using assms by (auto simp: expect_def split: prod.splits)

lemma expect_None: "child s = None \<Longrightarrow> expect ps t s = (Raise AttributeError, s)"
  by (simp add: expect_def)

text \<open>Frame properties: an expect changes the child only, and not what was sent.\<close>

lemma expect_frame:
  assumes "expect ps t s = (r, s')"
  shows "out s' = out s" "ul_file s' = ul_file s" "im_file s' = im_file s"
    "devices s' = devices s" "num_devices s' = num_devices s" "sent_lines s' = sent_lines s"
    "(child s' = None) = (child s = None)"
proof -
  show "out s' = out s" "ul_file s' = ul_file s" "im_file s' = im_file s"
    "devices s' = devices s" "num_devices s' = num_devices s" "(child s' = None) = (child s = None)"
    using assms by (auto simp: expect_def split: option.splits prod.splits)
  show "sent_lines s' = sent_lines s"
  proof (cases "child s")
    case None
    with assms show ?thesis by (simp add: expect_def)
  next
    case (Some ch)
    from expect_cases [OF assms Some] obtain ch' where
      c: "s' = s\<lparr>child := Some ch'\<rparr>" "child_expect ps t ch = (r, ch')" by blast
    from child_expect_cases [OF c(2)] c(1) Some show ?thesis by (simp add: sent_lines_def)
  qed
qed

lemma search_single:
  "search_patterns [Regex r] 0 buf = Some (i, pre, m, g, rest) \<Longrightarrow>
     i = 0 \<and> re_search r buf = Some (pre, m, g, rest)"
  "search_patterns [Regex r, EOF] 0 buf = Some (i, pre, m, g, rest) \<Longrightarrow>
     i = 0 \<and> re_search r buf = Some (pre, m, g, rest)"
  "search_patterns [Regex r, TIMEOUT] 0 buf = Some (i, pre, m, g, rest) \<Longrightarrow>
     i = 0 \<and> re_search r buf = Some (pre, m, g, rest)"
  by (auto split: option.splits)

lemma many1_SomeD:
  "many1 P s = Some (n, r) \<Longrightarrow> n \<noteq> [] \<and> list_all P n \<and> s = n @ r \<and> (r = [] \<or> \<not> P (hd r))"
  by (auto simp: many1_def list_all_iff hd_dropWhile dest: set_takeWhileD split: if_splits)

lemma lit_SomeD: "lit p s = Some r \<Longrightarrow> s = p @ r"
  by (auto simp: lit_def prefix_def split: if_splits)

lemma many1_append:
  "n \<noteq> [] \<Longrightarrow> list_all P n \<Longrightarrow> r = [] \<or> \<not> P (hd r) \<Longrightarrow> many1 P (n @ r) = Some (n, r)"
  by (cases r) (auto simp: many1_def list_all_iff takeWhile_append2 dropWhile_append2
      takeWhile_eq_Nil_iff)

lemma lit_append: "lit p (p @ r) = Some r"
  by (simp add: lit_def)

lemma progress_re_SomeD:
  assumes "progress_re t = Some (g, rest)"
  shows "\<exists>ds. ds \<noteq> [] \<and> list_all is_digit ds \<and> g = []
      \<and> t = ''Write LBA from file ('' @ ds @ ''%)'' @ rest"
proof -
  from assms obtain s1 n s2 where
    a: "lit ''Write LBA from file ('' t = Some s1" and b: "many1 is_digit s1 = Some (n, s2)"
    and c: "lit ''%)'' s2 = Some rest" and g: "g = []"
    by (auto simp: progress_re_def split: Option.bind_splits)
  from lit_SomeD [OF a] many1_SomeD [OF b] lit_SomeD [OF c] g show ?thesis
    by (intro exI [of _ n]) simp
qed

lemma percent_of_marker:
  assumes "ds \<noteq> []" "list_all is_digit ds"
  shows "re_search percent_re (''Write LBA from file ('' @ ds @ ''%)'')
     = Some (''Write LBA from file '', ''('' @ ds @ ''%)'', [ds], [])"
proof -
  have m: "many1 is_digit (ds @ ''%)'') = Some (ds, ''%)'')"
    using assms by (intro many1_append) (simp_all add: is_digit_def)
  have "percent_re (CHR ''('' # ds @ ''%)'') = Some ([ds], [])"
    by (simp add: percent_re_def lit_def m)
  then show ?thesis
    by (simp add: percent_re_def lit_def matched_def)
qed

lemma matched_append: "matched (a @ rest) rest = a"
  by (simp add: matched_def)

lemma progress_match_percent:
  assumes "re_search progress_re buf = Some (pre, m, g, rest)"
  shows "\<exists>ds. ds \<noteq> [] \<and> list_all is_digit ds \<and> g = []
     \<and> m = ''Write LBA from file ('' @ ds @ ''%)''
     \<and> buf = pre @ m @ rest
     \<and> re_search percent_re m = Some (''Write LBA from file '', ''('' @ ds @ ''%)'', [ds], [])"
proof -
  from re_search_SomeD [OF assms] obtain t where
    t: "buf = pre @ t" "progress_re t = Some (g, rest)" "m = matched t rest" by blast
  from progress_re_SomeD [OF t(2)] obtain ds where
    d: "ds \<noteq> []" "list_all is_digit ds" "g = []" "t = ''Write LBA from file ('' @ ds @ ''%)'' @ rest"
    by blast
  have "m = ''Write LBA from file ('' @ ds @ ''%)''"
    using matched_append [of "''Write LBA from file ('' @ ds @ ''%)''" rest] t(3) d(4) by simp
  with d t percent_of_marker [OF d(1,2)] show ?thesis by (intro exI [of _ ds]) simp
qed

section \<open>The device parser\<close>












section \<open>The progress parser\<close>




section \<open>The progress loop\<close>

lemma writing_loop_None:
  "child s = None \<Longrightarrow> writing_loop n prev s = (if n = 0 then OutOfFuel else Raise AttributeError, s)"
  by (cases n) (simp_all add: bind_def expect_def)

lemma writing_loop_step:
  assumes "child s \<noteq> None"
  obtains (eof) s1 where
      "expect [Regex progress_re, EOF] None s = (Return 1, s1)"
      "writing_loop (Suc n) prev s = writing_loop n prev s1"
  | (line) s1 ds where
      "expect [Regex progress_re, EOF] None s = (Return 0, s1)"
      "ds \<noteq> []" "list_all is_digit ds"
      "writing_loop (Suc n) prev s =
         seq (if int_of_digits ds \<noteq> prev then emit (Progress (int_of_digits ds)) else return ())
             (if int_of_digits ds = 100
              then seq (emit (Print [])) (logging_info ''Write process completed.'')
              else writing_loop n (if int_of_digits ds \<noteq> prev then int_of_digits ds else prev)) s1"
proof -
  from assms obtain ch where ch: "child s = Some ch" by auto
  obtain r s1 where e: "expect [Regex progress_re, EOF] None s = (r, s1)"
    by (cases "expect [Regex progress_re, EOF] None s") auto
  from expect_cases [OF e ch] obtain ch' where
    c: "s1 = s\<lparr>child := Some ch'\<rparr>" "child_expect [Regex progress_re, EOF] None ch = (r, ch')"
    by blast
  from child_expect_cases [OF c(2)]
  consider (hit) i pre m g rest buf where "r = Return i"
      "search_patterns [Regex progress_re, EOF] 0 buf = Some (i, pre, m, g, rest)"
      "match ch' = Some (m, g)"
    | (closed) "r = Return 1"
    by auto
  then show thesis
  proof cases
    case hit
    from search_single(2) [OF hit(2)] have i: "i = 0"
      and rs: "re_search progress_re buf = Some (pre, m, g, rest)" by auto
    from progress_match_percent [OF rs] obtain ds where
      d: "ds \<noteq> []" "list_all is_digit ds"
         "re_search percent_re m = Some (''Write LBA from file '', ''('' @ ds @ ''%)'', [ds], [])"
      by blast
    have g0: "child_match_group 0 s1 = (Return m, s1)"
      using c(1) hit(3) by (simp add: child_match_group_def group_def)
    have g1: "search_group percent_re m 1 s1 = (Return ds, s1)"
      using d(3) by (simp add: search_group_def group_def)
    have "writing_loop (Suc n) prev s =
         seq (if int_of_digits ds \<noteq> prev then emit (Progress (int_of_digits ds)) else return ())
             (if int_of_digits ds = 100
              then seq (emit (Print [])) (logging_info ''Write process completed.'')
              else writing_loop n (if int_of_digits ds \<noteq> prev then int_of_digits ds else prev)) s1"
      using e hit(1) i g0 g1 by (simp add: bind_def Let_def)
    with e hit(1) i d(1,2) show ?thesis by (intro line [of s1 ds]) simp_all
  next
    case closed
    with e have "writing_loop (Suc n) prev s = writing_loop n prev s1"
      by (simp add: bind_def)
    with e closed show ?thesis by (intro eof [of s1]) simp_all
  qed
qed

lemma percentages_append: "percentages (xs @ ys) = percentages xs @ percentages ys"
  by (induction xs rule: percentages.induct) simp_all

lemma writing_loop_progress:
  "\<exists>new. out (snd (writing_loop n prev s)) = out s @ new
      \<and> distinct_adj (percentages new)
      \<and> (percentages new = [] \<or> hd (percentages new) \<noteq> prev)"
proof (induction n arbitrary: prev s)
  case 0
  show ?case by simp
next
  case (Suc n)
  show ?case
  proof (cases "child s = None")
    case True
    then show ?thesis by (simp add: writing_loop_None del: writing_loop.simps)
  next
    case False
    then show ?thesis
    proof (cases rule: writing_loop_step [of s n prev])
      case (eof s1)
      from Suc.IH [of prev s1] expect_frame(1) [OF eof(1)] eof(2) show ?thesis by simp
    next
      case (line s1 ds)
      let ?p = "int_of_digits ds"
      have o: "out s1 = out s" using expect_frame(1) [OF line(1)] .
      show ?thesis
      proof (cases "?p = 100")
        case True
        then show ?thesis using line(4) o
          by (cases "?p = prev")
            (simp_all add: seq_def bind_def emit_def return_def logging_info_def)
      next
        case False
        show ?thesis
        proof (cases "?p = prev")
          case True
          from Suc.IH [of prev s1] show ?thesis using line(4) o False True
            by (simp add: seq_def bind_def return_def)
        next
          case ne: False
          let ?s2 = "s1\<lparr>out := out s1 @ [Progress ?p]\<rparr>"
          from Suc.IH [of ?p ?s2] obtain new where
            n: "out (snd (writing_loop n ?p ?s2)) = out ?s2 @ new"
               "distinct_adj (percentages new)"
               "percentages new = [] \<or> hd (percentages new) \<noteq> ?p"
            by blast
          have w: "writing_loop (Suc n) prev s = writing_loop n ?p ?s2"
            using line(4) False ne by (simp add: seq_def bind_def emit_def)
          have "distinct_adj (percentages (Progress ?p # new))"
            using n(2,3) by (auto simp: distinct_adj_Cons)
          with w n(1) o ne show ?thesis
            by (intro exI [of _ "Progress ?p # new"]) simp
        qed
      qed
    qed
  qed
qed

lemma sendline_frame:
  assumes "sendline l s = (r, s')"
  shows "out s' = out s" "ul_file s' = ul_file s" "im_file s' = im_file s"
    "devices s' = devices s" "num_devices s' = num_devices s"
    "(child s' = None) = (child s = None)"
  using assms by (auto simp: sendline_def split: option.splits)


text \<open>The loop of \<open>writing_lba\<close> shows the percentage that \<open>parse_progress\<close> reads.\<close>

lemma loop_reads_parse_progress:
  assumes "child s = Some ch" "feed ch = []"
  shows "percentages (out (snd (writing_loop 1 prev s)))
     = percentages (out s) @
       (case parse_progress (buffer ch) of
          Some p \<Rightarrow> if p \<noteq> prev then [p] else []
        | None \<Rightarrow> [])"
proof (cases "re_search progress_re (buffer ch)")
  case None
  with assms show ?thesis
    by (simp add: parse_progress_def bind_def expect_def child_expect_def)
next
  case (Some a)
  then obtain pre m g rest where r: "re_search progress_re (buffer ch) = Some (pre, m, g, rest)"
    by (cases a) auto
  from progress_match_percent [OF r] obtain ds where
    d: "re_search percent_re m = Some (''Write LBA from file '', ''('' @ ds @ ''%)'', [ds], [])"
    by blast
  from assms r d show ?thesis
    by (simp add: parse_progress_def bind_def expect_def child_expect_def child_match_group_def
        group_def search_group_def seq_def emit_def return_def logging_info_def Let_def
        percentages_append)
qed


text \<open>
  C4. Whatever the stream repeats, the progress tracking of one device never shows the
  same percentage twice in a row: the progress lines it adds to what is shown have no two
  adjacent equal percentages.
\<close>

theorem no_repeated_progress:
  "\<exists>new. out (snd (writing_lba fuel s)) = out s @ new \<and> distinct_adj (percentages new)"
proof -
  obtain r s1 where w: "writing_loop fuel (- 1) s = (r, s1)"
    by (cases "writing_loop fuel (- 1) s") auto
  from writing_loop_progress [of fuel "- 1" s] w obtain new where
    n: "out s1 = out s @ new" "distinct_adj (percentages new)" by auto
  obtain r2 s2 where s: "sendline ''cd'' s1 = (r2, s2)"
    by (cases "sendline ''cd'' s1") auto
  obtain r3 s3 where e: "expect [Regex (literal_re ''Rescan press <R>,Quit press <Q>:''), EOF] None s2 = (r3, s3)"
    by (cases "expect [Regex (literal_re ''Rescan press <R>,Quit press <Q>:''), EOF] None s2") auto
  have "out (snd (writing_lba fuel s)) = out s1"
    using w s e sendline_frame(1) [OF s] expect_frame(1) [OF e]
    by (cases r; cases r2; cases r3)
      (simp_all add: writing_lba_def seq_def bind_def expect_initial_prompt_def return_def)
  with n show ?thesis by auto
qed

section \<open>End of stream at the discovery wait\<close>

text \<open>
  C6. When the process closes its output at the discovery wait, before the selection
  prompt and before any text that announces selectable devices, the program reports that
  no devices were found and ends the session normally; it has sent nothing to the process.
\<close>

theorem closed_stream_no_commands:
  assumes "devices tool = []"
    and "\<not> sublist ''Rescan press <R>,Quit press <Q>:'' (transcript process)"
    and "\<not> sublist ''Select input DevNo'' (transcript process)"
  shows "run process fuel tool =
     (Return (),
      tool\<lparr>child := Some \<lparr>feed = [], buffer = [], before = transcript process,
                            match = None, sent = []\<rparr>,
           out := out tool
             @ (if sublist ''No found rockusb'' (transcript process)
                then [Log INFO ''No Rescan prompt found.''] else [])
             @ [Log INFO ''No Radxa devices found.'', Log INFO maskrom_hint]\<rparr>)"
proof -
  have a: "await [Regex (literal_re ''Rescan press <R>,Quit press <Q>:''), EOF] False [] process
      = (Closed, transcript process, [])"
    using await_literal_closed [of "''Rescan press <R>,Quit press <Q>:''" "[]" process] assms(2)
    by simp
  show ?thesis
    using assms(1,3)
    by (simp add: run_def spawn_def spawn_child_def initial_prompt_def expect_initial_prompt_def
        seq_def bind_def try_except_def expect_def child_expect_def a return_def child_before_def
        logging_info_def emit_def)
qed

theorem closed_stream_no_commands_witness:
  "run [] 3 example_tool =
     (Return (),
      example_tool\<lparr>child := Some \<lparr>feed = [], buffer = [], before = [],
                            match = None, sent = []\<rparr>,
           out := [Log INFO ''No Radxa devices found.'', Log INFO maskrom_hint]\<rparr>)
   \<and> sent_lines (snd (run [] 3 example_tool)) = []"
  using closed_stream_no_commands [of example_tool "[]" 3]
  by (simp add: example_tool_def sent_lines_def)

section \<open>A failed loader upload\<close>

text \<open>
  C1. The claim is that a device whose loader upload fails (failure marker, unknown
  reply or timeout) is abandoned without the image-write command. On each of the three
  sessions the program logs the failure of the upload and still sends \<open>wl 0 i.img\<close>
  to the same device.
\<close>

theorem loader_failure_still_writes:
  "out (snd (run loader_fails 3 example_tool)) =
       [Log ERROR ''Upgrade loader command for device in location 101 failed.'',
        Log INFO maskrom_hint,
        Log ERROR ''Write LBA for device in location 101 failed'',
        Log INFO maskrom_hint]
   \<and> sent_lines (snd (run loader_fails 3 example_tool)) =
       [''r\<newline>'', ''1\<newline>'', ''ul l.bin -noreset\<newline>'', ''wl 0 i.img\<newline>'']
   \<and> out (snd (run loader_unknown 3 example_tool)) =
       [Log ERROR ''Unknow error for device in location 101.'',
        Log ERROR ''Write LBA for device in location 101 failed'',
        Log INFO maskrom_hint]
   \<and> sent_lines (snd (run loader_unknown 3 example_tool)) =
       [''r\<newline>'', ''1\<newline>'', ''ul l.bin -noreset\<newline>'', ''wl 0 i.img\<newline>'']
   \<and> out (snd (run loader_silent 3 example_tool)) =
       [Log ERROR ''Unknow error for device in location 101.'',
        Log ERROR ''Write LBA for device in location 101 failed'',
        Log INFO maskrom_hint]
   \<and> sent_lines (snd (run loader_silent 3 example_tool)) =
       [''r\<newline>'', ''1\<newline>'', ''ul l.bin -noreset\<newline>'', ''wl 0 i.img\<newline>'']"
  by code_simp

section \<open>End of stream during the write\<close>

lemma writing_loop_at_eof:
  "child s \<noteq> None \<Longrightarrow> feed (the (child s)) = [] \<Longrightarrow> buffer (the (child s)) = [] \<Longrightarrow>
   writing_loop n l s =
     (OutOfFuel,
      if n = 0 then s else s\<lparr>child := Some ((the (child s))\<lparr>before := [], match := None\<rparr>)\<rparr>)"
proof (induction n arbitrary: s)
  case 0
  then show ?case by simp
next
  case (Suc n)
  from Suc.prems obtain ch where ch: "child s = Some ch" by auto
  let ?ch = "ch\<lparr>before := [], match := None\<rparr>"
  have e: "expect [Regex progress_re, EOF] None s = (Return 1, s\<lparr>child := Some ?ch\<rparr>)"
    using Suc.prems ch by (simp add: expect_def child_expect_def progress_re_def lit_def)
  show ?case using Suc.prems ch Suc.IH [of "s\<lparr>child := Some ?ch\<rparr>"]
    by (simp add: e bind_def)
qed

text \<open>
  C2. The claim is that an end of stream before 100% ends the session with a reported
  fatal error. On the session \<open>dies_mid_write\<close> the program never ends, whatever the
  number of iterations allowed, and it logs no error: after the 40% line every wait
  returns the end of stream at once and the loop starts over.
\<close>

theorem dies_mid_write_never_ends:
  "fst (run dies_mid_write fuel example_tool) = OutOfFuel
   \<and> out (snd (run dies_mid_write fuel example_tool)) =
       (if fuel = 0
        then [Log INFO ''Upgrade loader for device in location 101 was successful.'',
              Log INFO ''Writing LBA for device in location 101.'']
        else [Log INFO ''Upgrade loader for device in location 101 was successful.'',
              Log INFO ''Writing LBA for device in location 101.'', Progress 40])"
proof (cases fuel)
  case 0
  show ?thesis unfolding 0
    by (simp add: dies_mid_write_def example_tool_def enumeration_def controller_defs
        text_defs str_int_1 str_int_101)
next
  case (Suc n)
  show ?thesis unfolding Suc
    by (simp add: dies_mid_write_def example_tool_def enumeration_def controller_defs
        text_defs writing_loop_at_eof str_int_1 str_int_101)
qed


section \<open>The invariants of a session\<close>

lemma tripleI:
  "(\<And>s. P s \<Longrightarrow> (case m s of (Return a, s') \<Rightarrow> Q a s' | (Raise e, s') \<Rightarrow> e = ExnEOF \<and> E s'
       | (OutOfFuel, s') \<Rightarrow> E s')) \<Longrightarrow> triple P m Q E"
  by (simp add: triple_def)

lemma tripleD:
  "triple P m Q E \<Longrightarrow> P s \<Longrightarrow> (case m s of (Return a, s') \<Rightarrow> Q a s' | (Raise e, s') \<Rightarrow> e = ExnEOF \<and> E s'
       | (OutOfFuel, s') \<Rightarrow> E s')"
  by (simp add: triple_def)

lemma triple_return: "triple (Q a) (return a) Q E"
  by (simp add: triple_def return_def)

lemma triple_bind:
  assumes "triple P m R E" and "\<And>a. triple (R a) (f a) Q E"
  shows "triple P (bind m f) Q E"
proof (rule tripleI)
  fix s assume p: "P s"
  obtain r s1 where m: "m s = (r, s1)" by (cases "m s") auto
  show "case bind m f s of (Return a, s') \<Rightarrow> Q a s' | (Raise e, s') \<Rightarrow> e = ExnEOF \<and> E s'
       | (OutOfFuel, s') \<Rightarrow> E s'"
  proof (cases r)
    case (Return a)
    with tripleD [OF assms(1) p] m have "R a s1" by simp
    from tripleD [OF assms(2) this] m Return show ?thesis by (simp add: bind_def)
  next
    case (Raise e)
    with tripleD [OF assms(1) p] m show ?thesis by (simp add: bind_def)
  next
    case OutOfFuel
    with tripleD [OF assms(1) p] m show ?thesis by (simp add: bind_def)
  qed
qed

lemma triple_seq:
  "triple P m (\<lambda>_. R) E \<Longrightarrow> triple R n Q E \<Longrightarrow> triple P (seq m n) Q E"
  unfolding seq_def by (rule triple_bind)

lemma triple_weaken:
  "triple P' m Q' E' \<Longrightarrow> (\<And>s. P s \<Longrightarrow> P' s) \<Longrightarrow> (\<And>a s. Q' a s \<Longrightarrow> Q a s)
     \<Longrightarrow> (\<And>s. E' s \<Longrightarrow> E s) \<Longrightarrow> triple P m Q E"
  by (fastforce simp: triple_def split: prod.splits result.splits)

lemma triple_if:
  "(b \<Longrightarrow> triple P m Q E) \<Longrightarrow> (\<not> b \<Longrightarrow> triple P n Q E) \<Longrightarrow> triple P (if b then m else n) Q E"
  by simp

lemma triple_try_timeout:
  "triple P body Q E \<Longrightarrow> triple P (try_except ExnTIMEOUT body handler) Q E"
  by (fastforce simp: triple_def try_except_def split: prod.splits result.splits)

lemma triple_try_eof:
  assumes "triple P body Q E" and "triple E handler Q E"
  shows "triple P (try_except ExnEOF body handler) Q E"
proof (rule tripleI)
  fix s assume p: "P s"
  obtain r s1 where m: "body s = (r, s1)" by (cases "body s") auto
  show "case try_except ExnEOF body handler s of (Return a, s') \<Rightarrow> Q a s'
       | (Raise e, s') \<Rightarrow> e = ExnEOF \<and> E s' | (OutOfFuel, s') \<Rightarrow> E s'"
  proof (cases r)
    case (Return a)
    with tripleD [OF assms(1) p] m show ?thesis by (simp add: try_except_def)
  next
    case (Raise e)
    with tripleD [OF assms(1) p] m have "e = ExnEOF" "E s1" by simp_all
    from tripleD [OF assms(2) this(2)] m Raise this(1) show ?thesis
      by (simp add: try_except_def)
  next
    case OutOfFuel
    with tripleD [OF assms(1) p] m show ?thesis by (simp add: try_except_def)
  qed
qed

lemma triple_for_each:
  assumes "\<And>x. x \<in> set xs \<Longrightarrow> triple I (body x) (\<lambda>_. I) E"
  shows "triple I (for_each xs body) (\<lambda>_. I) E"
  using assms
proof (induction xs)
  case Nil
  show ?case by (simp add: triple_def return_def)
next
  case (Cons x xs)
  show ?case
    by (simp, rule triple_seq [where R = I]) (simp_all add: Cons)
qed

text \<open>The primitive steps.\<close>

lemma triple_emit: "triple (kept G) (emit x) (\<lambda>_. kept G) E"
  by (simp add: triple_def emit_def kept_def sent_lines_def)

lemma triple_logging_info: "triple (kept G) (logging_info x) (\<lambda>_. kept G) E"
  by (simp add: logging_info_def triple_emit)

lemma triple_logging_error: "triple (kept G) (logging_error x) (\<lambda>_. kept G) E"
  by (simp add: logging_error_def triple_emit)

lemma triple_child_before: "triple (kept G) child_before (\<lambda>_. kept G) E"
  by (auto simp: triple_def child_before_def kept_def)

lemma triple_sendline:
  "triple (kept (\<lambda>u m d S. G u m d (insert (l @ ''\<newline>'') S))) (sendline l) (\<lambda>_. kept G) E"
  by (auto simp: triple_def sendline_def kept_def sent_lines_def child_sendline_def)

lemma kept_expect:
  assumes "expect ps t s = (r, s')" shows "kept G s' = kept G s"
  using expect_frame [OF assms] by (simp add: kept_def)

lemma expect_result:
  assumes "expect ps t s = (r, s')" and "child s \<noteq> None"
    and "t \<noteq> None \<longrightarrow> timeout_index ps 0 \<noteq> None"
  shows "(\<exists>i. r = Return i) \<or> r = Raise ExnEOF"
proof -
  from assms(2) obtain ch where ch: "child s = Some ch" by auto
  from expect_cases [OF assms(1) ch] obtain ch' where
    "child_expect ps t ch = (r, ch')" by blast
  from child_expect_cases [OF this] assms(3) show ?thesis
    by (auto split: option.splits)
qed

lemma triple_expect:
  assumes "t \<noteq> None \<longrightarrow> timeout_index ps 0 \<noteq> None"
  shows "triple (kept G) (expect ps t) (\<lambda>_. kept G) (kept G)"
proof (rule tripleI)
  fix s assume i: "kept G s"
  obtain r s' where e: "expect ps t s = (r, s')" by (cases "expect ps t s") auto
  from i have "child s \<noteq> None" by (simp add: kept_def)
  from expect_result [OF e this assms] kept_expect [OF e, of G] i e
  show "case expect ps t s of (Return a, s') \<Rightarrow> kept G s'
       | (Raise e, s') \<Rightarrow> e = ExnEOF \<and> kept G s' | (OutOfFuel, s') \<Rightarrow> kept G s'"
    by auto
qed

lemma found_re_groups: "found_re t = Some (g, rest) \<Longrightarrow> \<exists>n. g = [n]"
  by (auto simp: found_re_def split: Option.bind_splits)

lemma triple_expect_found:
  "triple (kept G) (expect [Regex found_re] None)
     (\<lambda>_ s. kept G s \<and> (\<exists>ch m n. child s = Some ch \<and> match ch = Some (m, [n]))) (kept G)"
proof (rule tripleI)
  fix s assume i: "kept G s"
  then obtain ch where ch: "child s = Some ch" by (auto simp: kept_def)
  obtain r s' where e: "expect [Regex found_re] None s = (r, s')"
    by (cases "expect [Regex found_re] None s") auto
  from expect_cases [OF e ch] obtain ch' where
    c: "s' = s\<lparr>child := Some ch'\<rparr>" "child_expect [Regex found_re] None ch = (r, ch')" by blast
  from child_expect_cases [OF c(2)]
  consider (hit) i pre m g rest buf where "r = Return i"
      "search_patterns [Regex found_re] 0 buf = Some (i, pre, m, g, rest)" "match ch' = Some (m, g)"
    | (closed) "r = Raise ExnEOF"
    by auto
  then show "case expect [Regex found_re] None s of
       (Return a, s') \<Rightarrow> kept G s' \<and> (\<exists>ch m n. child s' = Some ch \<and> match ch = Some (m, [n]))
       | (Raise e, s') \<Rightarrow> e = ExnEOF \<and> kept G s' | (OutOfFuel, s') \<Rightarrow> kept G s'"
  proof cases
    case hit
    from search_single(1) [OF hit(2)] re_search_SomeD [of found_re buf pre m g rest]
    obtain t where "found_re t = Some (g, rest)" by auto
    from found_re_groups [OF this] obtain n where "g = [n]" by blast
    with hit e c(1) i kept_expect [OF e, of G] show ?thesis by simp
  next
    case closed
    with e i kept_expect [OF e, of G] show ?thesis by simp
  qed
qed

lemma triple_group1:
  "triple (\<lambda>s. kept G s \<and> (\<exists>ch m n. child s = Some ch \<and> match ch = Some (m, [n])))
     (child_match_group 1) (\<lambda>_. kept G) E"
  by (auto simp: triple_def child_match_group_def group_def)

lemma triple_set_num_devices:
  "triple (kept G) (\<lambda>s. (Return (), s\<lparr>num_devices := n\<rparr>)) (\<lambda>_. kept G) E"
  by (simp add: triple_def kept_def sent_lines_def)

lemma triple_set_devices:
  "triple (kept (\<lambda>u m d S. G u m D S)) (\<lambda>s. (Return (), s\<lparr>devices := D\<rparr>)) (\<lambda>_. kept G) E"
  by (simp add: triple_def kept_def sent_lines_def)

lemma triple_writing_loop: "triple (kept G) (writing_loop n prev) (\<lambda>_. kept G) (kept G)"
proof (induction n arbitrary: prev)
  case 0
  show ?case by (simp add: triple_def)
next
  case (Suc n)
  show ?case
  proof (rule tripleI)
    fix s assume i: "kept G s"
    then have "child s \<noteq> None" by (simp add: kept_def)
    then show "case writing_loop (Suc n) prev s of (Return a, s') \<Rightarrow> kept G s'
       | (Raise e, s') \<Rightarrow> e = ExnEOF \<and> kept G s' | (OutOfFuel, s') \<Rightarrow> kept G s'"
    proof (cases rule: writing_loop_step [of s n prev])
      case (eof s1)
      from kept_expect [OF eof(1), of G] i have "kept G s1" by simp
      from tripleD [OF Suc.IH [of prev] this] eof(2) show ?thesis by simp
    next
      case (line s1 ds)
      from kept_expect [OF line(1), of G] i have i1: "kept G s1" by simp
      have "triple (kept G)
         (seq (if int_of_digits ds \<noteq> prev then emit (Progress (int_of_digits ds)) else return ())
             (if int_of_digits ds = 100
              then seq (emit (Print [])) (logging_info ''Write process completed.'')
              else writing_loop n (if int_of_digits ds \<noteq> prev then int_of_digits ds else prev)))
         (\<lambda>_. kept G) (kept G)"
        by (intro triple_seq [where R = "kept G"] triple_if triple_emit triple_return
            triple_logging_info Suc.IH)
      from tripleD [OF this i1] line(4) show ?thesis by simp
    qed
  qed
qed

lemma triple_sendline_flashing:
  assumes "l @ ''\<newline>'' \<in> vocabulary U M D"
  shows "triple (flashing U M D) (sendline l) (\<lambda>_. flashing U M D) E"
  unfolding flashing_def
  by (rule triple_weaken [OF triple_sendline
        [where G = "\<lambda>u m d S. u = U \<and> m = M \<and> d = D \<and> S \<subseteq> vocabulary U M D" and l = l]])
    (use assms in \<open>auto simp: kept_def\<close>)

lemma triple_expect_initial_prompt: "triple (kept G) expect_initial_prompt (\<lambda>_. kept G) (kept G)"
  unfolding expect_initial_prompt_def
  by (intro triple_seq [where R = "kept G"] triple_expect) (simp_all add: triple_def return_def)

lemma triple_return_unit: "triple I (return ()) (\<lambda>_. I) E"
  by (simp add: triple_def return_def)

lemma triple_initial_prompt:
  "triple (scanning U M) initial_prompt (\<lambda>_. scanning U M) (scanning U M)"
proof -
  let ?G = "\<lambda>u m (d::RadxaDevice list) S. u = U \<and> m = M \<and> S \<subseteq> {''r\<newline>''}"
  let ?I = "kept ?G"
  have send: "triple ?I (sendline ''r'') (\<lambda>_. ?I) ?I"
    by (rule triple_weaken [OF triple_sendline [where G = ?G and l = "''r''"]])
      (auto simp: kept_def)
  have setd: "triple ?I (\<lambda>s. (Return (), s\<lparr>devices := D\<rparr>)) (\<lambda>_. ?I) ?I" for D
    by (rule triple_weaken [OF triple_set_devices [where G = ?G and D = D]])
      (auto simp: kept_def)
  have rescan: "triple ?I
      (seq (sendline ''r'')
        (seq (expect [Regex found_re] None)
        (bind (child_match_group 1) (\<lambda>n.
         seq (\<lambda>s. (Return (), s\<lparr>num_devices := int_of_digits n\<rparr>))
             (\<lambda>s. (Return (), s\<lparr>devices := parse_devices seen\<rparr>))))))
      (\<lambda>_. ?I) ?I" for seen
    by (intro triple_seq [OF send] triple_seq [OF triple_expect_found]
        triple_bind [OF triple_group1] triple_seq [OF triple_set_num_devices] setd)
  show ?thesis
    unfolding initial_prompt_def scanning_def rescan_devices_def
    by (intro triple_seq [OF triple_expect_initial_prompt] triple_bind [OF triple_child_before]
        triple_if triple_logging_info rescan triple_return_unit)
qed

lemma triple_upgrade_loader:
  "triple (kept G) (upgrade_loader location) (\<lambda>_. kept G) (kept G)"
  unfolding upgrade_loader_def
  by (intro triple_try_timeout triple_seq [where R = "kept G"] triple_bind [where R = "\<lambda>_. kept G"]
      triple_expect triple_child_before triple_if triple_logging_info triple_logging_error) simp_all

lemma triple_writing_lba:
  "triple (flashing U M D) (writing_lba fuel) (\<lambda>_. flashing U M D) (flashing U M D)"
  unfolding writing_lba_def
  apply (rule triple_seq [where R = "flashing U M D"])
   apply (simp add: flashing_def triple_writing_loop)
  apply (rule triple_seq [where R = "flashing U M D"])
   apply (rule triple_sendline_flashing, simp add: vocabulary_def)
  apply (simp add: flashing_def triple_expect_initial_prompt)
  done

lemma triple_write_lba:
  "triple (flashing U M D) (write_lba fuel location) (\<lambda>_. flashing U M D) (flashing U M D)"
  unfolding write_lba_def
  apply (rule triple_try_timeout)
  apply (rule triple_seq [where R = "flashing U M D"])
   apply (simp add: flashing_def triple_expect)
  apply (rule triple_bind [where R = "\<lambda>_. flashing U M D"])
   apply (simp add: flashing_def triple_child_before)
  apply (intro triple_if triple_seq [where R = "flashing U M D"] triple_writing_lba)
     apply (simp_all add: flashing_def triple_logging_info triple_logging_error)
  done

lemma triple_send_upgrade_commands:
  "triple (flashing U M D) (send_upgrade_commands fuel location) (\<lambda>_. flashing U M D) (flashing U M D)"
proof (rule tripleI)
  fix s assume f: "flashing U M D s"
  then have u: "ul_file s = U" "im_file s = M" by (simp_all add: flashing_def kept_def)
  have "triple (flashing U M D)
     (seq (seq (sendline (''ul '' @ U @ '' -noreset''))
            (seq (upgrade_loader location) (return ())))
       (seq (seq (sendline (''wl 0 '' @ M))
            (seq (return ()) (write_lba fuel location)))
          (return ())))
     (\<lambda>_. flashing U M D) (flashing U M D)"
    apply (intro triple_seq [where R = "flashing U M D"] triple_write_lba triple_sendline_flashing)
           apply (simp_all add: vocabulary_def)
       apply (simp_all add: flashing_def triple_upgrade_loader)
       apply (simp_all add: triple_def return_def)
    done
  from tripleD [OF this f] u show
    "case send_upgrade_commands fuel location s of (Return a, s') \<Rightarrow> flashing U M D s'
       | (Raise e, s') \<Rightarrow> e = ExnEOF \<and> flashing U M D s' | (OutOfFuel, s') \<Rightarrow> flashing U M D s'"
    by (simp add: send_upgrade_commands_def)
qed

lemma triple_run_upgrade:
  assumes "d \<in> set D"
  shows "triple (flashing U M D) (run_upgrade fuel d) (\<lambda>_. flashing U M D) (flashing U M D)"
  unfolding run_upgrade_def
  apply (rule triple_seq [where R = "flashing U M D"])
   apply (rule triple_sendline_flashing, use assms in \<open>simp add: vocabulary_def\<close>)
  apply (rule triple_seq [where R = "flashing U M D"])
   apply (simp add: flashing_def triple_expect)
  apply (rule triple_send_upgrade_commands)
  done

lemma scanning_flashing: "scanning U M s \<Longrightarrow> flashing U M (devices s) s"
  by (auto simp: scanning_def flashing_def kept_def vocabulary_def)

lemma run_outcome:
  "(fst (run process fuel tool) = Return () \<or> fst (run process fuel tool) = OutOfFuel)
   \<and> flashing (ul_file tool) (im_file tool) (devices (snd (run process fuel tool)))
       (snd (run process fuel tool))"
proof -
  let ?U = "ul_file tool" and ?M = "im_file tool"
  let ?Q = "\<lambda>s. flashing ?U ?M (devices s) s"
  let ?K = "\<lambda>s. if devices s = [] then
                   seq (logging_info ''No Radxa devices found.'') (logging_info maskrom_hint) s
                 else for_each (devices s) (run_upgrade fuel) s"
  let ?s0 = "tool\<lparr>child := Some (spawn_child process)\<rparr>"
  have s0: "scanning ?U ?M ?s0"
    by (simp add: scanning_def kept_def sent_lines_def spawn_child_def)
  have k: "triple (scanning ?U ?M) ?K (\<lambda>_. ?Q) ?Q"
  proof (rule tripleI)
    fix s assume "scanning ?U ?M s"
    then have f: "flashing ?U ?M (devices s) s" by (rule scanning_flashing)
    have "triple (flashing ?U ?M (devices s))
        (if devices s = [] then
           seq (logging_info ''No Radxa devices found.'') (logging_info maskrom_hint)
         else for_each (devices s) (run_upgrade fuel))
        (\<lambda>_. flashing ?U ?M (devices s)) (flashing ?U ?M (devices s))"
      apply (intro triple_if triple_for_each triple_run_upgrade triple_seq [where R = "flashing ?U ?M (devices s)"])
        apply (simp_all add: flashing_def triple_logging_info)
      done
    from tripleD [OF this f] show
      "case ?K s of (Return a, s') \<Rightarrow> ?Q s' | (Raise e, s') \<Rightarrow> e = ExnEOF \<and> ?Q s'
         | (OutOfFuel, s') \<Rightarrow> ?Q s'"
      by (auto simp: flashing_def kept_def split: prod.splits result.splits if_splits)
  qed
  have b: "triple (scanning ?U ?M) (seq initial_prompt ?K) (\<lambda>_. ?Q) ?Q"
    by (rule triple_seq [OF triple_weaken [OF triple_initial_prompt] k])
      (auto intro: scanning_flashing)
  obtain r s1 where body: "seq initial_prompt ?K ?s0 = (r, s1)"
    by (cases "seq initial_prompt ?K ?s0") auto
  have run: "run process fuel tool =
      (case r of Raise e \<Rightarrow> if e = ExnEOF
          then logging_error ''An error occurred during the upgrade process.'' s1
          else (Raise e, s1) | _ \<Rightarrow> (r, s1))"
    using body by (simp add: run_def seq_def [of "spawn process"] bind_def spawn_def try_except_def
        split: result.splits)
  from tripleD [OF b s0] body show ?thesis
    by (cases r)
      (auto simp: run logging_error_def emit_def flashing_def kept_def sent_lines_def)
qed


text \<open>
  C7. Every line the program sends to the process is one of the fixed commands, followed
  by the line terminator: \<open>r\<close>, the index of a device found, \<open>ul <loader-path> -noreset\<close>,
  \<open>wl 0 <image-path>\<close> or \<open>cd\<close>.
\<close>

theorem commands_in_vocabulary:
  "set (sent_lines (snd (run process fuel tool)))
     \<subseteq> vocabulary (ul_file tool) (im_file tool) (devices (snd (run process fuel tool)))"
  using run_outcome [of process fuel tool] by (simp add: flashing_def kept_def)

lemma completes_run:
  "fst (run completes 5 example_tool) = Return ()"
  "sent_lines (snd (run completes 5 example_tool))
     = [''r\<newline>'', ''1\<newline>'', ''ul l.bin -noreset\<newline>'', ''wl 0 i.img\<newline>'', ''cd\<newline>'']"
  "devices (snd (run completes 5 example_tool))
     = [\<lparr>devno = 1, vid = ''2207'', pid = ''350a'', location_id = 101\<rparr>]"
  "percentages (out (snd (run completes 5 example_tool))) = [40, 100]"
  by code_simp+

theorem commands_in_vocabulary_witness:
  "sent_lines (snd (run completes 5 example_tool))
     = [''r\<newline>'', ''1\<newline>'', ''ul l.bin -noreset\<newline>'', ''wl 0 i.img\<newline>'', ''cd\<newline>'']
   \<and> set [''r\<newline>'', ''1\<newline>'', ''ul l.bin -noreset\<newline>'', ''wl 0 i.img\<newline>'', ''cd\<newline>'']
       \<subseteq> vocabulary ''l.bin'' ''i.img''
           [\<lparr>devno = 1, vid = ''2207'', pid = ''350a'', location_id = 101\<rparr>]"
  using commands_in_vocabulary [of completes 5 example_tool] completes_run(2,3)
  by (simp add: example_tool_def)

section \<open>The exit status\<close>




section \<open>The reported device count\<close>






end
